theory Spec2Isabelle
  imports Main
begin

section \<open>Dates: the part of dayjs that the picker calls\<close>

text \<open>
  The picker (\<^verbatim>\<open>src/DateRangePicker.tsx\<close>) handles dates as \<^verbatim>\<open>Dayjs\<close> objects. A
  \<^verbatim>\<open>Dayjs\<close> object wraps a JavaScript \<^verbatim>\<open>Date\<close>, that is a number of milliseconds since
  1970-01-01T00:00:00Z, returned by \<^verbatim>\<open>valueOf()\<close>. The library itself is not part of the
  repository; the operations below follow its published behaviour for exactly the calls
  the picker makes. Two assumptions are built into the model: only valid dates are
  represented, and the local time zone is UTC (the calendar fields are read from the
  instant without an offset).
\<close>

datatype dayjs = Dayjs (valueOf: int)

definition msPerDay :: int where
  "msPerDay = 86400000"

text \<open>\<^verbatim>\<open>a.isAfter(b)\<close> and \<^verbatim>\<open>a.isBefore(b)\<close> without a unit compare the two instants.\<close>

definition isAfter :: "dayjs \<Rightarrow> dayjs \<Rightarrow> bool" where
  "isAfter a b = (valueOf b < valueOf a)"

definition isBefore :: "dayjs \<Rightarrow> dayjs \<Rightarrow> bool" where
  "isBefore a b = (valueOf a < valueOf b)"

text \<open>\<^verbatim>\<open>startOf('day')\<close> is midnight of the same day, \<^verbatim>\<open>endOf('day')\<close> its last millisecond.\<close>

definition startOf_day :: "dayjs \<Rightarrow> dayjs" where
  "startOf_day a = Dayjs (valueOf a - valueOf a mod msPerDay)"

definition endOf_day :: "dayjs \<Rightarrow> dayjs" where
  "endOf_day a = Dayjs (valueOf (startOf_day a) + msPerDay - 1)"

text \<open>
  \<^verbatim>\<open>a.isSame(b, 'day')\<close> is \<^verbatim>\<open>a.startOf('day') <= b && b <= a.endOf('day')\<close>.
\<close>

definition isSame_day :: "dayjs \<Rightarrow> dayjs \<Rightarrow> bool" where
  "isSame_day a b =
     (valueOf (startOf_day a) \<le> valueOf b \<and> valueOf b \<le> valueOf (endOf_day a))"

text \<open>
  The isBetween plugin, called as \<^verbatim>\<open>d.isBetween(a, b, null, '[]')\<close>: the unit \<^verbatim>\<open>null\<close>
  makes every comparison one of instants, and \<^verbatim>\<open>'[]'\<close> makes both ends inclusive. The
  plugin accepts the two bounds in either order.
\<close>

definition isBetween :: "dayjs \<Rightarrow> dayjs \<Rightarrow> dayjs \<Rightarrow> bool" where
  "isBetween d a b =
     ((\<not> isBefore d a \<and> \<not> isAfter d b) \<or> (\<not> isAfter d a \<and> \<not> isBefore d b))"

text \<open>The number of the calendar day an instant lies in (days since 1970-01-01).\<close>

definition calendarDay :: "dayjs \<Rightarrow> int" where
  "calendarDay a = valueOf a div msPerDay"

text \<open>\<^verbatim>\<open>d.day()\<close> is the day of the week, 0 for Sunday; 1970-01-01 was a Thursday.\<close>

definition dayjs_day :: "dayjs \<Rightarrow> int" where
  "dayjs_day a = (calendarDay a + 4) mod 7"

subsection \<open>Calendar fields and formatting\<close>

text \<open>
  A \<^verbatim>\<open>Dayjs\<close> object reads its fields \<^verbatim>\<open>$y\<close>, \<^verbatim>\<open>$M\<close> (0 for January) and \<^verbatim>\<open>$D\<close> from its
  \<^verbatim>\<open>Date\<close> in the proleptic Gregorian calendar. The conversion from a day number works
  on 400-year eras that start on 1 March: \<open>doe\<close> is the day of the era, \<open>yoe\<close> the year
  of the era, \<open>doy\<close> the day of the year counted from 1 March and \<open>mp\<close> the month
  counted from March. Each stage is a definition of its own so that a concrete date is
  evaluated stage by stage.
\<close>

definition civil_month :: "int \<Rightarrow> int \<Rightarrow> int \<Rightarrow> int \<times> int \<times> int" where
  "civil_month y doy mp =
     (if mp < 10 then (y, mp + 2, doy - (153 * mp + 2) div 5 + 1)
      else (y + 1, mp - 10, doy - (153 * mp + 2) div 5 + 1))"

definition civil_year :: "int \<Rightarrow> int \<Rightarrow> int \<Rightarrow> int \<times> int \<times> int" where
  "civil_year era doe yoe =
     civil_month (yoe + era * 400) (doe - (365 * yoe + yoe div 4 - yoe div 100))
       ((5 * (doe - (365 * yoe + yoe div 4 - yoe div 100)) + 2) div 153)"

definition civil_era :: "int \<Rightarrow> int \<Rightarrow> int \<times> int \<times> int" where
  "civil_era era doe =
     civil_year era doe ((doe - doe div 1460 + doe div 36524 - doe div 146096) div 365)"

definition civil_of_days :: "int \<Rightarrow> int \<times> int \<times> int" where
  "civil_of_days z = civil_era ((z + 719468) div 146097) ((z + 719468) mod 146097)"

definition dayjs_y :: "dayjs \<Rightarrow> int" where
  "dayjs_y a = fst (civil_of_days (calendarDay a))"

definition dayjs_M :: "dayjs \<Rightarrow> int" where
  "dayjs_M a = fst (snd (civil_of_days (calendarDay a)))"

definition dayjs_D :: "dayjs \<Rightarrow> int" where
  "dayjs_D a = snd (snd (civil_of_days (calendarDay a)))"

text \<open>The month names of the default (English) locale; \<^verbatim>\<open>MMM\<close> is the first three letters.\<close>

definition months :: "string list" where
  "months = [''January'', ''February'', ''March'', ''April'', ''May'', ''June'', ''July'',
             ''August'', ''September'', ''October'', ''November'', ''December'']"

text \<open>JavaScript's \<^verbatim>\<open>String(n)\<close> for an integer: decimal digits, with a minus sign.\<close>

fun digits :: "nat \<Rightarrow> string" where
  "digits n = (if n < 10 then [''0123456789'' ! n]
               else digits (n div 10) @ [''0123456789'' ! (n mod 10)])"

declare digits.simps [simp del]

definition String_int :: "int \<Rightarrow> string" where
  "String_int i = (if i < 0 then ''-'' @ digits (nat (- i)) else digits (nat i))"

text \<open>The library's \<^verbatim>\<open>padStart\<close>: a string that is long enough is returned as it is.\<close>

definition padStart :: "string \<Rightarrow> nat \<Rightarrow> char \<Rightarrow> string" where
  "padStart s n pad = (if n \<le> length s then s else replicate (n - length s) pad @ s)"

text \<open>
  \<^verbatim>\<open>a.format('D MMM YYYY')\<close>: the token \<^verbatim>\<open>D\<close> is the day of the month without padding,
  \<^verbatim>\<open>MMM\<close> the short month name, \<^verbatim>\<open>YYYY\<close> the year padded to four characters; the two
  blanks are copied.
\<close>

definition format_D_MMM_YYYY :: "dayjs \<Rightarrow> string" where
  "format_D_MMM_YYYY a =
     String_int (dayjs_D a) @ '' '' @ take 3 (months ! nat (dayjs_M a)) @ '' ''
       @ padStart (String_int (dayjs_y a)) 4 (CHR ''0'')"

section \<open>The range state holder\<close>

text \<open>
  The caller owns the selection, an array \<^verbatim>\<open>(Dayjs | null)[]\<close>. The component reads
  \<^verbatim>\<open>value[0] || null\<close> and \<^verbatim>\<open>value[1] || null\<close>, so a missing element reads as null.
\<close>

type_synonym range_value = "dayjs option list"

definition startDay_of :: "range_value \<Rightarrow> dayjs option" where
  "startDay_of v = (if 0 < length v then v ! 0 else None)"

definition endDay_of :: "range_value \<Rightarrow> dayjs option" where
  "endDay_of v = (if 1 < length v then v ! 1 else None)"

text \<open>The two pieces of state the component keeps itself (\<^verbatim>\<open>React.useState\<close>).\<close>

record picker_state =
  startTurn :: bool
  pickerValue :: "dayjs option"

text \<open>
  A handler returns the calls it makes to the caller's \<^verbatim>\<open>onChange\<close> (through
  \<^verbatim>\<open>updateValue\<close>), in order, and the component state after its \<^verbatim>\<open>set...\<close> calls.
\<close>

definition handleChange ::
  "range_value \<Rightarrow> picker_state \<Rightarrow> dayjs option \<Rightarrow> range_value list \<times> picker_state" where
  "handleChange v st newValue =
     (case newValue of
        None \<Rightarrow> ([], st)
      | Some n \<Rightarrow>
          (let st1 = st\<lparr>pickerValue := Some n\<rparr> in
           if startTurn st then
             (let isReverse = (case endDay_of v of None \<Rightarrow> False | Some e \<Rightarrow> isAfter n e) in
              if isReverse then ([[Some n, None]], st1\<lparr>startTurn := False\<rparr>)
              else ([[Some n, endDay_of v]], st1\<lparr>startTurn := False\<rparr>))
           else
             (let isReverse = (case startDay_of v of None \<Rightarrow> False | Some s \<Rightarrow> isBefore n s) in
              if isReverse then ([[Some n, startDay_of v]], st1\<lparr>startTurn := False\<rparr>)
              else ([[startDay_of v, Some n]], st1\<lparr>startTurn := True\<rparr>))))"

definition handleClear :: "picker_state \<Rightarrow> range_value list \<times> picker_state" where
  "handleClear st = ([[None, None]], st\<lparr>pickerValue := None, startTurn := True\<rparr>)"

text \<open>
  The effect (\<^verbatim>\<open>React.useEffect\<close>) runs after a render in which one of its dependencies
  \<^verbatim>\<open>[startDay, endDay, startTurn]\<close> differs from the previous render, and positions the
  calendar on the endpoint whose turn it is.
\<close>

definition syncPickerValue ::
  "range_value \<Rightarrow> picker_state \<Rightarrow> range_value \<Rightarrow> picker_state \<Rightarrow> picker_state" where
  "syncPickerValue v st v' st' =
     (if (startDay_of v', endDay_of v', startTurn st') = (startDay_of v, endDay_of v, startTurn st)
      then st'
      else st'\<lparr>pickerValue := (if startTurn st' then startDay_of v' else endDay_of v')\<rparr>)"

text \<open>
  The widget together with a caller that stores every reported pair and passes it back
  as \<^verbatim>\<open>value\<close> (the controlled-component pattern).
\<close>

record widget =
  selection :: range_value
  ui :: picker_state

definition echo :: "range_value \<Rightarrow> range_value list \<Rightarrow> range_value" where
  "echo v calls = foldl (\<lambda>_ reported. reported) v calls"

datatype event = Click "dayjs option" | Clear

definition step :: "widget \<Rightarrow> event \<Rightarrow> widget" where
  "step w ev =
     (let (calls, st') = (case ev of Click n \<Rightarrow> handleChange (selection w) (ui w) n
                                   | Clear \<Rightarrow> handleClear (ui w));
          v' = echo (selection w) calls
      in \<lparr>selection = v', ui = syncPickerValue (selection w) (ui w) v' st'\<rparr>)"

definition initial :: widget where
  "initial = \<lparr>selection = [None, None], ui = \<lparr>startTurn = True, pickerValue = None\<rparr>\<rparr>"

definition run :: "event list \<Rightarrow> widget" where
  "run evs = foldl step initial evs"

text \<open>The invariant the click handler aims at: a complete selection is in order.\<close>

definition ordered :: "range_value \<Rightarrow> bool" where
  "ordered v = (case (startDay_of v, endDay_of v) of
                  (Some s, Some e) \<Rightarrow> valueOf s \<le> valueOf e
                | _ \<Rightarrow> True)"

section \<open>The calendar cell renderer\<close>

text \<open>The three theme colours that \<^verbatim>\<open>CustomPickersDay\<close> reads from \<^verbatim>\<open>theme.palette\<close>.\<close>

record palette =
  common_white :: string
  primary_main :: string
  primary_dark :: string

record colours =
  color :: string
  backgroundColor :: string

text \<open>
  The style object that the \<^verbatim>\<open>styled\<close> callback of \<^verbatim>\<open>CustomPickersDay\<close> returns. A
  conditional spread \<^verbatim>\<open>...(c && {...})\<close> contributes its keys when \<^verbatim>\<open>c\<close> holds and
  nothing otherwise, so such keys are optional.
\<close>

record day_css =
  borderRadius :: string
  hover :: colours
  focus :: "colours option"
  highlight :: "colours option"

definition CustomPickersDay :: "palette \<Rightarrow> bool \<Rightarrow> bool \<Rightarrow> bool \<Rightarrow> day_css" where
  "CustomPickersDay theme dayIsBetween isFirstDay isLastDay =
     \<lparr>borderRadius = ''50%'',
      hover = \<lparr>color = common_white theme, backgroundColor = primary_dark theme\<rparr>,
      focus = (if dayIsBetween
               then Some \<lparr>color = common_white theme, backgroundColor = primary_dark theme\<rparr>
               else None),
      highlight = (if isFirstDay \<or> isLastDay
                   then Some \<lparr>color = common_white theme, backgroundColor = primary_main theme\<rparr>
                   else None)\<rparr>"

text \<open>The inline style of the \<^verbatim>\<open>div\<close> that \<^verbatim>\<open>Day\<close> wraps around a cell.\<close>

record div_style =
  div_backgroundColor :: "string option"
  borderTopLeftRadius :: "string option"
  borderBottomLeftRadius :: "string option"
  borderTopRightRadius :: "string option"
  borderBottomRightRadius :: "string option"

text \<open>The props that \<^verbatim>\<open>Day\<close> passes to \<^verbatim>\<open>CustomPickersDay\<close>.\<close>

record day_props =
  day :: dayjs
  sx :: "(string \<times> string) list"
  dayIsBetween :: bool
  isFirstDay :: bool
  isLastDay :: bool

datatype element = PickersDay dayjs | Div div_style day_props

text \<open>
  The body of \<^verbatim>\<open>Day\<close> after \<^verbatim>\<open>start = startDay || endDay\<close> and
  \<^verbatim>\<open>end = endDay || startDay\<close> have been computed.
\<close>

definition Day_between :: "dayjs \<Rightarrow> dayjs \<Rightarrow> dayjs \<Rightarrow> element" where
  "Day_between d start end' =
     (let dayIsBetween = isBetween d start end';
          isFirstDay = isSame_day d start;
          isSunday = (dayjs_day d = 0);
          isSaturday = (dayjs_day d = 6);
          isLastDay = isSame_day d end'
      in Div
           \<lparr>div_backgroundColor = (if dayIsBetween then Some ''#eee'' else None),
            borderTopLeftRadius = (if isFirstDay \<or> isSunday then Some ''50%'' else None),
            borderBottomLeftRadius = (if isFirstDay \<or> isSunday then Some ''50%'' else None),
            borderTopRightRadius = (if isLastDay \<or> isSaturday then Some ''50%'' else None),
            borderBottomRightRadius = (if isLastDay \<or> isSaturday then Some ''50%'' else None)\<rparr>
           \<lparr>day = d,
            sx = (if dayIsBetween then [(''px'', ''2.5''), (''mx'', ''0'')] else []),
            dayIsBetween = dayIsBetween,
            isFirstDay = isFirstDay,
            isLastDay = isLastDay\<rparr>)"

text \<open>
  \<^verbatim>\<open>Day\<close>: with no endpoint the library's plain cell is returned; otherwise whichever
  endpoint is present stands in for a missing one.
\<close>

fun Day :: "dayjs \<Rightarrow> dayjs option \<Rightarrow> dayjs option \<Rightarrow> element" where
  "Day d None None = PickersDay d"
| "Day d (Some s) None = Day_between d s s"
| "Day d None (Some e) = Day_between d e e"
| "Day d (Some s) (Some e) = Day_between d s e"

text \<open>What the claims observe of a rendered cell.\<close>

definition inRangeStyled :: "element \<Rightarrow> bool" where
  "inRangeStyled el =
     (case el of PickersDay _ \<Rightarrow> False
               | Div st _ \<Rightarrow> div_backgroundColor st = Some ''#eee'')"

definition markedFirst :: "element \<Rightarrow> bool" where
  "markedFirst el = (case el of PickersDay _ \<Rightarrow> False | Div _ p \<Rightarrow> isFirstDay p)"

definition markedLast :: "element \<Rightarrow> bool" where
  "markedLast el = (case el of PickersDay _ \<Rightarrow> False | Div _ p \<Rightarrow> isLastDay p)"

definition endpointHighlight :: "palette \<Rightarrow> element \<Rightarrow> colours option" where
  "endpointHighlight theme el =
     (case el of
        PickersDay _ \<Rightarrow> None
      | Div _ p \<Rightarrow> highlight (CustomPickersDay theme (dayIsBetween p) (isFirstDay p) (isLastDay p)))"

definition roundedLeft :: "element \<Rightarrow> bool" where
  "roundedLeft el =
     (case el of PickersDay _ \<Rightarrow> False
               | Div st _ \<Rightarrow> borderTopLeftRadius st = Some ''50%''
                             \<and> borderBottomLeftRadius st = Some ''50%'')"

definition roundedRight :: "element \<Rightarrow> bool" where
  "roundedRight el =
     (case el of PickersDay _ \<Rightarrow> False
               | Div st _ \<Rightarrow> borderTopRightRadius st = Some ''50%''
                             \<and> borderBottomRightRadius st = Some ''50%'')"

section \<open>The text field renderer\<close>

text \<open>The \<^verbatim>\<open>value\<close> that \<^verbatim>\<open>CustomTextField\<close> passes to the text field.\<close>

definition CustomTextField_value :: "dayjs option \<Rightarrow> dayjs option \<Rightarrow> string" where
  "CustomTextField_value startDay endDay =
     (case startDay of Some s \<Rightarrow> format_D_MMM_YYYY s | None \<Rightarrow> ''Start'') @ '' - '' @
     (case endDay of Some e \<Rightarrow> format_D_MMM_YYYY e | None \<Rightarrow> ''End'')"

section \<open>The Gregorian calendar and the date pattern, stated independently\<close>

text \<open>
  The calendar fields above are computed from a day number. So that the text of the
  field can be compared with something other than that computation, the proleptic
  Gregorian calendar is stated here in the other direction, from a date to its day
  number: the leap-year rule, the lengths of the months, and the day number of
  1 January of a year as the ECMAScript standard defines it (\<^verbatim>\<open>DayFromYear\<close>). Months are
  numbered from 0.
\<close>

definition leapYear :: "int \<Rightarrow> bool" where
  "leapYear y = (y mod 400 = 0 \<or> (y mod 4 = 0 \<and> y mod 100 \<noteq> 0))"

definition dayFromYear :: "int \<Rightarrow> int" where
  "dayFromYear y = 365 * (y - 1970) + (y - 1969) div 4 - (y - 1901) div 100 + (y - 1601) div 400"

definition daysInMonth :: "int \<Rightarrow> int \<Rightarrow> int" where
  "daysInMonth y m =
     (if m = 1 then (if leapYear y then 29 else 28)
      else [31, 28, 31, 30, 31, 30, 31, 31, 30, 31, 30, 31] ! nat m)"

definition daysBeforeMonth :: "int \<Rightarrow> int \<Rightarrow> int" where
  "daysBeforeMonth y m =
     [0, 31, 59, 90, 120, 151, 181, 212, 243, 273, 304, 334] ! nat m
       + (if 2 \<le> m \<and> leapYear y then 1 else 0)"

definition days_of_civil :: "int \<Rightarrow> int \<Rightarrow> int \<Rightarrow> int" where
  "days_of_civil y m d = dayFromYear y + daysBeforeMonth y m + (d - 1)"

definition validDate :: "int \<Rightarrow> int \<Rightarrow> int \<Rightarrow> bool" where
  "validDate y m d = (0 \<le> m \<and> m \<le> 11 \<and> 1 \<le> d \<and> d \<le> daysInMonth y m)"

text \<open>
  The instant \<open>a\<close> lies on day \<open>d\<close> of month \<open>m\<close> of year \<open>y\<close>, a date of the calendar
  with a year of at most four digits.
\<close>

definition onDate :: "dayjs \<Rightarrow> int \<Rightarrow> int \<Rightarrow> int \<Rightarrow> bool" where
  "onDate a y m d =
     (validDate y m d \<and> 0 \<le> y \<and> y \<le> 9999 \<and> calendarDay a = days_of_civil y m d)"

text \<open>
  The pattern \<^verbatim>\<open>D MMM YYYY\<close> in the words of the specification (its example is
  \<^verbatim>\<open>15 Jan 2024\<close>): the day of the month without a leading zero, a blank, the
  three-letter English abbreviation of the month, a blank, and the year in four digits.
\<close>

definition monthsShort :: "string list" where
  "monthsShort = [''Jan'', ''Feb'', ''Mar'', ''Apr'', ''May'', ''Jun'',
                  ''Jul'', ''Aug'', ''Sep'', ''Oct'', ''Nov'', ''Dec'']"

definition digit :: "int \<Rightarrow> char" where
  "digit i = ''0123456789'' ! nat i"

definition spec_D_MMM_YYYY :: "int \<Rightarrow> int \<Rightarrow> int \<Rightarrow> string" where
  "spec_D_MMM_YYYY y m d =
     (if d < 10 then [digit d] else [digit (d div 10), digit (d mod 10)]) @ '' '' @
     monthsShort ! nat m @ '' '' @
     [digit (y div 1000), digit (y div 100 mod 10), digit (y div 10 mod 10), digit (y mod 10)]"

subsection \<open>Notions used in the proof that the two calendars agree\<close>

text \<open>
  The day of the era on which year \<open>yoe\<close> of the era begins, the estimate from which
  \<open>civil_era\<close> takes the year of the era, and the length of a year that runs from
  1 March to the end of the following February.
\<close>

definition eraDays :: "int \<Rightarrow> int" where
  "eraDays yoe = 365 * yoe + yoe div 4 - yoe div 100"

definition yearEstimate :: "int \<Rightarrow> int" where
  "yearEstimate doe = doe - doe div 1460 + doe div 36524 - doe div 146096"

definition marchYearLength :: "int \<Rightarrow> int" where
  "marchYearLength yoe =
     (if (yoe + 1) mod 400 = 0 \<or> ((yoe + 1) mod 4 = 0 \<and> (yoe + 1) mod 100 \<noteq> 0) then 366 else 365)"

text \<open>The estimate is right on the first and on the last day of year \<open>y\<close> of the era.\<close>

definition yoe_ok :: "int \<Rightarrow> bool" where
  "yoe_ok y = (365 * y \<le> yearEstimate (eraDays y)
             \<and> yearEstimate (eraDays y + marchYearLength y - 1) \<le> 365 * y + 364)"

text \<open>What \<open>dayFromYear\<close> and \<open>eraDays\<close> say about a year \<open>r\<close> of the first era.\<close>

definition year_facts :: "int \<Rightarrow> bool" where
  "year_facts r =
     (dayFromYear (r + 1) = dayFromYear r + (if leapYear r then 366 else 365)
      \<and> dayFromYear r + 59 + (if leapYear r then 1 else 0) + 719468 = eraDays r)"

text \<open>Consecutive years of the era follow one another without a gap.\<close>

definition era_adjacent :: "int \<Rightarrow> bool" where
  "era_adjacent y = (eraDays (y + 1) = eraDays y + marchYearLength y)"

text \<open>The year and the month of a date when the year is counted from 1 March.\<close>

definition marchYear :: "int \<Rightarrow> int \<Rightarrow> int" where
  "marchYear y m = (if 2 \<le> m then y else y - 1)"

definition marchMonth :: "int \<Rightarrow> int" where
  "marchMonth m = (if 2 \<le> m then m - 2 else m + 10)"

text \<open>A property holds for \<open>0, \<dots>, n - 1\<close>; evaluated, it checks a finite range.\<close>

fun below :: "(int \<Rightarrow> bool) \<Rightarrow> nat \<Rightarrow> bool" where
  "below P 0 = True"
| "below P (Suc n) = (P (int n) \<and> below P n)"

section \<open>Facts about the model of the dates\<close>

lemmas picker_defs = handleChange_def handleClear_def step_def echo_def syncPickerValue_def
  startDay_of_def endDay_of_def isAfter_def isBefore_def Let_def

lemmas civil_defs = civil_of_days_def civil_era_def civil_year_def civil_month_def

text \<open>Two instants lie in the same block of \<open>m\<close> milliseconds iff their quotients agree.\<close>

lemma same_block_iff:
  fixes a b m :: int
  assumes "0 < m"
  shows "(a - a mod m \<le> b \<and> b \<le> a - a mod m + m - 1) \<longleftrightarrow> a div m = b div m"
proof
  assume h: "a - a mod m \<le> b \<and> b \<le> a - a mod m + m - 1"
  have lo: "a - a mod m = m * (a div m)"
    by (simp add: minus_mod_eq_mult_div)
  have "b = m * (a div m) + (b - m * (a div m))"
    by simp
  moreover have "0 \<le> b - m * (a div m)" "b - m * (a div m) < m"
    using h lo by simp_all
  ultimately have "b div m = a div m"
    by (rule int_div_pos_eq)
  then show "a div m = b div m" by simp
next
  assume e: "a div m = b div m"
  have "a - a mod m = m * (b div m)"
    using e by (simp add: minus_mod_eq_mult_div)
  also have "\<dots> = b - b mod m"
    by (simp add: minus_mod_eq_mult_div)
  finally have "a - a mod m = b - b mod m" .
  moreover have "0 \<le> b mod m" "b mod m < m"
    using assms by simp_all
  ultimately show "a - a mod m \<le> b \<and> b \<le> a - a mod m + m - 1"
    by simp
qed

text \<open>\<^verbatim>\<open>isSame(_, 'day')\<close> compares calendar days and ignores the time of day.\<close>

lemma isSame_day_iff: "isSame_day a b \<longleftrightarrow> calendarDay a = calendarDay b"
  using same_block_iff [of msPerDay "valueOf a" "valueOf b"]
  by (simp add: isSame_day_def startOf_day_def endOf_day_def calendarDay_def msPerDay_def)

text \<open>The inclusive \<^verbatim>\<open>isBetween\<close> compares instants and takes the bounds in either order.\<close>

lemma isBetween_iff:
  "isBetween d a b \<longleftrightarrow>
     min (valueOf a) (valueOf b) \<le> valueOf d \<and> valueOf d \<le> max (valueOf a) (valueOf b)"
  by (auto simp add: isBetween_def isBefore_def isAfter_def)

lemma calendarDay_mono: "valueOf a \<le> valueOf b \<Longrightarrow> calendarDay a \<le> calendarDay b"
  by (simp add: calendarDay_def msPerDay_def zdiv_mono1)

lemma digits_small: "n < 10 \<Longrightarrow> digits n = [''0123456789'' ! n]"
  by (subst digits.simps) simp

lemma digits_large:
  "\<not> n < 10 \<Longrightarrow> digits n = digits (n div 10) @ [''0123456789'' ! (n mod 10)]"
  by (subst digits.simps) simp

text \<open>The calendar model on known dates, among them a leap day and dates before 1970.\<close>

lemma civil_of_days_examples:
  "civil_of_days 0 = (1970, 0, 1)"
  "civil_of_days (- 1) = (1969, 11, 31)"
  "civil_of_days 11016 = (2000, 1, 29)"
  "civil_of_days 11017 = (2000, 2, 1)"
  "civil_of_days 19737 = (2024, 0, 15)"
  "civil_of_days 19782 = (2024, 1, 29)"
  "civil_of_days (- 25508) = (1900, 2, 1)"
  by (simp_all add: civil_defs)

text \<open>The calendar computed from a day number agrees with the calendar stated independently.\<close>

lemma below_all: "below P n \<Longrightarrow> 0 \<le> i \<Longrightarrow> i < int n \<Longrightarrow> P i"
proof (induction n)
  case 0
  then show ?case by simp
next
  case (Suc n)
  show ?case
  proof (cases "i = int n")
    case True
    then show ?thesis using Suc.prems(1) by simp
  next
    case False
    then have "i < int n" using Suc.prems(3) by simp
    then show ?thesis using Suc by simp
  qed
qed

lemma yoe_ok_400: "below yoe_ok 400"
  by code_simp

lemma yoe_ok_all: "0 \<le> y \<Longrightarrow> y \<le> 399 \<Longrightarrow> yoe_ok y"
  using yoe_ok_400 by (rule below_all) simp_all

lemma div_step:
  fixes x x' :: int
  assumes "x \<le> x'"
  shows "x' div 1460 - x div 1460 \<le> x' - x"
proof -
  have "x' div 1460 \<le> (x + 1460 * (x' - x)) div 1460"
    using assms by (intro zdiv_mono1) simp_all
  also have "\<dots> = x div 1460 + (x' - x)"
    by simp
  finally show ?thesis by simp
qed

lemma century_part:
  fixes x :: int
  assumes "0 \<le> x" "x \<le> 146096"
  shows "x div 36524 - x div 146096 = (if x = 146096 then 3 else x div 36524)"
    and "x div 36524 - x div 146096 \<le> 3"
proof -
  show "x div 36524 - x div 146096 = (if x = 146096 then 3 else x div 36524)"
  proof (cases "x = 146096")
    case True
    then show ?thesis by simp
  next
    case False
    then have "x < 146096" using assms by simp
    then have "x div 146096 = 0" using assms by simp
    then show ?thesis using False by simp
  qed
  have "x div 36524 \<le> 146096 div 36524"
    using assms by (intro zdiv_mono1) simp_all
  moreover have "0 \<le> x div 146096"
    using assms by simp
  moreover have "x = 146096 \<Longrightarrow> x div 146096 = 1" by simp
  moreover have "x < 146096 \<Longrightarrow> x div 36524 \<le> 146095 div 36524"
    by (intro zdiv_mono1) simp_all
  ultimately show "x div 36524 - x div 146096 \<le> 3"
    using assms by (cases "x = 146096") simp_all
qed

lemma yearEstimate_mono:
  assumes "0 \<le> x" "x \<le> x'" "x' \<le> 146096"
  shows "yearEstimate x \<le> yearEstimate x'"
proof -
  have a: "x' div 1460 - x div 1460 \<le> x' - x"
    using assms(2) by (rule div_step)
  have b: "x div 36524 - x div 146096 \<le> x' div 36524 - x' div 146096"
  proof (cases "x' = 146096")
    case True
    then show ?thesis
      using century_part(2) [of x] assms by simp
  next
    case False
    then have "x' < 146096" "x < 146096" using assms by simp_all
    then have "x' div 146096 = 0" "x div 146096 = 0" using assms by simp_all
    moreover have "x div 36524 \<le> x' div 36524"
      using assms(2) by (intro zdiv_mono1) simp_all
    ultimately show ?thesis by simp
  qed
  show ?thesis
    unfolding yearEstimate_def using a b by linarith
qed

lemma eraDays_bounds:
  assumes "0 \<le> y" "y \<le> 399"
  shows "0 \<le> eraDays y" "eraDays y + marchYearLength y - 1 \<le> 146096"
proof -
  have "y div 100 \<le> y div 4"
    using assms(1) by (intro zdiv_mono2) simp_all
  then show "0 \<le> eraDays y"
    using assms by (simp add: eraDays_def)
  have "y div 4 \<le> 399 div 4"
    using assms by (intro zdiv_mono1) simp_all
  moreover have "0 \<le> y div 100"
    using assms by simp
  moreover have "marchYearLength y \<le> 366"
    by (simp add: marchYearLength_def)
  moreover have "y \<le> 398 \<Longrightarrow> y div 4 \<le> 398 div 4"
    by (intro zdiv_mono1) simp_all
  ultimately show "eraDays y + marchYearLength y - 1 \<le> 146096"
    using assms by (cases "y = 399") (simp_all add: eraDays_def)
qed

lemma yearEstimate_recovers:
  assumes "0 \<le> y" "y \<le> 399" "0 \<le> doy" "doy < marchYearLength y"
  shows "yearEstimate (eraDays y + doy) div 365 = y"
proof -
  have ok: "yoe_ok y" using assms(1,2) by (rule yoe_ok_all)
  have "yearEstimate (eraDays y) \<le> yearEstimate (eraDays y + doy)"
    using eraDays_bounds [OF assms(1,2)] assms(3,4) by (intro yearEstimate_mono) simp_all
  moreover have "yearEstimate (eraDays y + doy) \<le> yearEstimate (eraDays y + marchYearLength y - 1)"
    using eraDays_bounds [OF assms(1,2)] assms(3,4) by (intro yearEstimate_mono) simp_all
  ultimately have "365 * y \<le> yearEstimate (eraDays y + doy)"
    "yearEstimate (eraDays y + doy) \<le> 365 * y + 364"
    using ok by (simp_all add: yoe_ok_def)
  then have "yearEstimate (eraDays y + doy) = 365 * y + (yearEstimate (eraDays y + doy) - 365 * y)"
    "0 \<le> yearEstimate (eraDays y + doy) - 365 * y" "yearEstimate (eraDays y + doy) - 365 * y < 365"
    by simp_all
  then show ?thesis
    by (rule int_div_pos_eq)
qed


lemma year_facts_400: "below year_facts 400"
  by code_simp

lemma dayFromYear_period: "dayFromYear (400 * q + t) = 146097 * q + dayFromYear t"
proof -
  have a: "(400 * q + t - 1969) div 4 = 100 * q + (t - 1969) div 4"
    using div_mult_self2 [of 4 "t - 1969" "100 * q"] by (simp add: algebra_simps)
  have b: "(400 * q + t - 1901) div 100 = 4 * q + (t - 1901) div 100"
    using div_mult_self2 [of 100 "t - 1901" "4 * q"] by (simp add: algebra_simps)
  have c: "(400 * q + t - 1601) div 400 = q + (t - 1601) div 400"
    using div_mult_self2 [of 400 "t - 1601" q] by (simp add: algebra_simps)
  show ?thesis
    unfolding dayFromYear_def a b c by simp
qed

lemma leapYear_period: "leapYear y = leapYear (y mod 400)"
proof -
  have "y mod 400 mod 4 = y mod 4" "y mod 400 mod 100 = y mod 100"
    by (simp_all add: mod_mod_cancel)
  then show ?thesis
    by (simp add: leapYear_def)
qed

lemma year_length: "dayFromYear (y + 1) = dayFromYear y + (if leapYear y then 366 else 365)"
proof -
  have f: "year_facts (y mod 400)"
    using year_facts_400 by (rule below_all) simp_all
  have y: "y = 400 * (y div 400) + y mod 400"
    by simp
  have "dayFromYear (y + 1) = dayFromYear (400 * (y div 400) + (y mod 400 + 1))"
    by (simp add: add.assoc [symmetric])
  also have "\<dots> = 146097 * (y div 400) + dayFromYear (y mod 400 + 1)"
    by (rule dayFromYear_period)
  also have "\<dots> = 146097 * (y div 400) + dayFromYear (y mod 400)
      + (if leapYear (y mod 400) then 366 else 365)"
    using f by (simp add: year_facts_def)
  also have "146097 * (y div 400) + dayFromYear (y mod 400) = dayFromYear y"
    using dayFromYear_period [of "y div 400" "y mod 400"] by simp
  finally show ?thesis
    using leapYear_period [of y] by simp
qed

lemma march_first:
  "dayFromYear y + 59 + (if leapYear y then 1 else 0) + 719468
     = 146097 * (y div 400) + eraDays (y mod 400)"
proof -
  have f: "year_facts (y mod 400)"
    using year_facts_400 by (rule below_all) simp_all
  have "dayFromYear y = 146097 * (y div 400) + dayFromYear (y mod 400)"
    using dayFromYear_period [of "y div 400" "y mod 400"] by simp
  then show ?thesis
    using f leapYear_period [of y] by (simp add: year_facts_def)
qed


lemma twelve:
  fixes m :: int
  assumes "0 \<le> m" "m \<le> 11"
  shows "m = 0 \<or> m = 1 \<or> m = 2 \<or> m = 3 \<or> m = 4 \<or> m = 5 \<or> m = 6 \<or> m = 7 \<or> m = 8
      \<or> m = 9 \<or> m = 10 \<or> m = 11"
  using assms by arith

lemma month_recover:
  assumes "0 \<le> mp" "mp \<le> 11" "1 \<le> d"
    and "d \<le> [31, 30, 31, 30, 31, 31, 30, 31, 30, 31, 31, 29] ! nat mp"
  shows "(5 * ((153 * mp + 2) div 5 + d - 1) + 2) div 153 = mp"
  using twelve [OF assms(1,2)] assms(3,4)
  by (elim disjE) simp_all


lemma succ_mod:
  fixes y k :: int
  assumes "k dvd 400"
  shows "(y mod 400 + 1) mod k = (y + 1) mod k"
proof -
  have "(y mod 400 + 1) mod k = (y mod 400 mod k + 1) mod k"
    by (simp only: mod_add_left_eq)
  also have "\<dots> = (y mod k + 1) mod k"
    using assms by (simp only: mod_mod_cancel)
  also have "\<dots> = (y + 1) mod k"
    by (simp only: mod_add_left_eq)
  finally show ?thesis .
qed

lemma marchYearLength_leap:
  "marchYearLength (y mod 400) = (if leapYear (y + 1) then 366 else 365)"
  by (simp add: marchYearLength_def leapYear_def succ_mod)


lemma civil_of_era_form:
  assumes yoe: "0 \<le> yoe" "yoe \<le> 399"
    and mp: "0 \<le> mp" "mp \<le> 11"
    and d: "1 \<le> d" "d \<le> [31, 30, 31, 30, 31, 31, 30, 31, 30, 31, 31, 29] ! nat mp"
    and len: "(153 * mp + 2) div 5 + d - 1 < marchYearLength yoe"
    and z: "z + 719468 = 146097 * era + eraDays yoe + ((153 * mp + 2) div 5 + d - 1)"
  shows "civil_of_days z =
           (if mp < 10 then (yoe + era * 400, mp + 2, d) else (yoe + era * 400 + 1, mp - 10, d))"
proof -
  define doy where "doy = (153 * mp + 2) div 5 + d - 1"
  define doe where "doe = eraDays yoe + doy"
  have doy0: "0 \<le> doy"
  proof -
    have "0 \<le> (153 * mp + 2) div 5"
      using mp(1) by simp
    then show ?thesis
      using d(1) by (simp add: doy_def)
  qed
  have doy1: "doy < marchYearLength yoe"
    using len by (simp add: doy_def)
  have doe0: "0 \<le> doe" and doe1: "doe < 146097"
    using eraDays_bounds [OF yoe] doy0 doy1 by (simp_all add: doe_def)
  have zz: "z + 719468 = 146097 * era + doe"
    using z by (simp add: doe_def doy_def)
  have q: "(z + 719468) div 146097 = era"
    using zz doe0 doe1 by (rule int_div_pos_eq)
  have r: "(z + 719468) mod 146097 = doe"
    using zz doe0 doe1 by (rule int_mod_pos_eq)
  have y: "(doe - doe div 1460 + doe div 36524 - doe div 146096) div 365 = yoe"
    using yearEstimate_recovers [OF yoe doy0 doy1] by (simp add: yearEstimate_def doe_def)
  have e: "doe - (365 * yoe + yoe div 4 - yoe div 100) = doy"
    by (simp add: doe_def eraDays_def)
  have m: "(5 * doy + 2) div 153 = mp"
    unfolding doy_def using mp d by (rule month_recover)
  have "civil_of_days z = civil_month (yoe + era * 400) doy mp"
    by (simp only: civil_of_days_def civil_era_def civil_year_def q r y e m)
  then show ?thesis
    by (simp add: civil_month_def doy_def)
qed

lemma civil_of_days_roundtrip:
  assumes "validDate y m d"
  shows "civil_of_days (days_of_civil y m d) = (y, m, d)"
proof (cases "2 \<le> m")
  case True
  define mp where "mp = m - 2"
  have m: "m = mp + 2" by (simp add: mp_def)
  have mp: "0 \<le> mp" "mp \<le> 9"
    using assms True by (simp_all add: validDate_def mp_def)
  have ten: "mp = 0 \<or> mp = 1 \<or> mp = 2 \<or> mp = 3 \<or> mp = 4 \<or> mp = 5 \<or> mp = 6 \<or> mp = 7
      \<or> mp = 8 \<or> mp = 9"
    using mp by arith
  have before: "daysBeforeMonth y m = 59 + (if leapYear y then 1 else 0) + (153 * mp + 2) div 5"
    using ten by (elim disjE) (simp_all add: daysBeforeMonth_def m)
  have inmonth: "daysInMonth y m = [31, 30, 31, 30, 31, 31, 30, 31, 30, 31, 31, 29] ! nat mp"
    using ten by (elim disjE) (simp_all add: daysInMonth_def m)
  have d: "1 \<le> d" "d \<le> [31, 30, 31, 30, 31, 31, 30, 31, 30, 31, 31, 29] ! nat mp"
    using assms inmonth by (simp_all add: validDate_def)
  have len: "(153 * mp + 2) div 5 + d - 1 < marchYearLength (y mod 400)"
    using ten d by (elim disjE) (simp_all add: marchYearLength_def)
  have z: "days_of_civil y m d + 719468
      = 146097 * (y div 400) + eraDays (y mod 400) + ((153 * mp + 2) div 5 + d - 1)"
    using march_first [of y] by (simp add: days_of_civil_def before)
  have "civil_of_days (days_of_civil y m d) =
      (if mp < 10 then (y mod 400 + y div 400 * 400, mp + 2, d)
       else (y mod 400 + y div 400 * 400 + 1, mp - 10, d))"
    using _ _ mp(1) _ d len z by (rule civil_of_era_form) (use mp in simp_all)
  then show ?thesis
    using mp by (simp add: m)
next
  case False
  then have m01: "m = 0 \<or> m = 1"
    using assms by (auto simp add: validDate_def)
  define mp where "mp = m + 10"
  have m: "m = mp - 10" by (simp add: mp_def)
  have mp: "mp = 10 \<or> mp = 11"
    using m01 by (auto simp add: mp_def)
  have before: "daysBeforeMonth y m + 306 = (153 * mp + 2) div 5"
    using mp by (elim disjE) (simp_all add: daysBeforeMonth_def m)
  have d1: "1 \<le> d"
    using assms by (simp add: validDate_def)
  have d: "d \<le> [31, 30, 31, 30, 31, 31, 30, 31, 30, 31, 31, 29] ! nat mp"
    using assms mp
    by (elim disjE) (simp_all add: validDate_def daysInMonth_def m split: if_splits)
  have len: "(153 * mp + 2) div 5 + d - 1 < marchYearLength ((y - 1) mod 400)"
    using assms mp marchYearLength_leap [of "y - 1"]
    by (elim disjE) (simp_all add: validDate_def daysInMonth_def m split: if_splits)
  have "dayFromYear y = dayFromYear (y - 1) + (if leapYear (y - 1) then 366 else 365)"
    using year_length [of "y - 1"] by simp
  then have z: "days_of_civil y m d + 719468
      = 146097 * ((y - 1) div 400) + eraDays ((y - 1) mod 400)
        + ((153 * mp + 2) div 5 + d - 1)"
    using march_first [of "y - 1"] before by (simp add: days_of_civil_def split: if_splits)
  have "civil_of_days (days_of_civil y m d) =
      (if mp < 10 then ((y - 1) mod 400 + (y - 1) div 400 * 400, mp + 2, d)
       else ((y - 1) mod 400 + (y - 1) div 400 * 400 + 1, mp - 10, d))"
    using _ _ _ _ d1 d len z by (rule civil_of_era_form) (use mp in auto)
  then show ?thesis
    using mp by (auto simp add: m)
qed

text \<open>
  Conversely, every day number is the day number of a date of the calendar, so the
  computed fields are always the date on which the instant lies.
\<close>

lemma era_adjacent_399: "below era_adjacent 399"
  by code_simp

lemma year_cover_upto:
  "0 \<le> doe \<Longrightarrow> doe < eraDays (int n) + marchYearLength (int n) \<Longrightarrow> n \<le> 399 \<Longrightarrow>
     \<exists>yoe. 0 \<le> yoe \<and> yoe \<le> int n \<and> eraDays yoe \<le> doe \<and> doe < eraDays yoe + marchYearLength yoe"
proof (induction n)
  case 0
  then show ?case
    by (intro exI [of _ 0]) (simp add: eraDays_def)
next
  case (Suc n)
  show ?case
  proof (cases "eraDays (int (Suc n)) \<le> doe")
    case True
    then show ?thesis
      using Suc.prems by (intro exI [of _ "int (Suc n)"]) simp
  next
    case False
    have "era_adjacent (int n)"
      using below_all [OF era_adjacent_399, of "int n"] Suc.prems(3) by simp
    then have "eraDays (int (Suc n)) = eraDays (int n) + marchYearLength (int n)"
      by (simp add: era_adjacent_def add.commute)
    then have "doe < eraDays (int n) + marchYearLength (int n)"
      using False by simp
    then obtain yoe where "0 \<le> yoe" "yoe \<le> int n" "eraDays yoe \<le> doe"
      "doe < eraDays yoe + marchYearLength yoe"
      using Suc.IH Suc.prems by auto
    then show ?thesis
      by (intro exI [of _ yoe]) simp
  qed
qed

lemma year_cover:
  assumes "0 \<le> doe" "doe < 146097"
  shows "\<exists>yoe. 0 \<le> yoe \<and> yoe \<le> 399 \<and> eraDays yoe \<le> doe \<and> doe < eraDays yoe + marchYearLength yoe"
proof -
  have "eraDays 399 + marchYearLength 399 = 146097"
    by (simp add: eraDays_def marchYearLength_def)
  then show ?thesis
    using year_cover_upto [of doe 399] assms by simp
qed

lemma month_cover:
  assumes "0 \<le> doy" "doy \<le> 365"
  shows "\<exists>mp d. 0 \<le> mp \<and> mp \<le> 11 \<and> 1 \<le> d
            \<and> d \<le> [31, 30, 31, 30, 31, 31, 30, 31, 30, 31, 31, 29] ! nat mp
            \<and> doy = (153 * mp + 2) div 5 + d - 1"
proof -
  consider "doy < 31" | "31 \<le> doy" "doy < 61" | "61 \<le> doy" "doy < 92"
    | "92 \<le> doy" "doy < 122" | "122 \<le> doy" "doy < 153" | "153 \<le> doy" "doy < 184"
    | "184 \<le> doy" "doy < 214" | "214 \<le> doy" "doy < 245" | "245 \<le> doy" "doy < 275"
    | "275 \<le> doy" "doy < 306" | "306 \<le> doy" "doy < 337" | "337 \<le> doy"
    by linarith
  then show ?thesis
  proof cases
    case 1 then show ?thesis using assms by (intro exI [of _ 0] exI [of _ "doy + 1"]) simp
  next
    case 2 then show ?thesis by (intro exI [of _ 1] exI [of _ "doy - 30"]) simp
  next
    case 3 then show ?thesis by (intro exI [of _ 2] exI [of _ "doy - 60"]) simp
  next
    case 4 then show ?thesis by (intro exI [of _ 3] exI [of _ "doy - 91"]) simp
  next
    case 5 then show ?thesis by (intro exI [of _ 4] exI [of _ "doy - 121"]) simp
  next
    case 6 then show ?thesis by (intro exI [of _ 5] exI [of _ "doy - 152"]) simp
  next
    case 7 then show ?thesis by (intro exI [of _ 6] exI [of _ "doy - 183"]) simp
  next
    case 8 then show ?thesis by (intro exI [of _ 7] exI [of _ "doy - 213"]) simp
  next
    case 9 then show ?thesis by (intro exI [of _ 8] exI [of _ "doy - 244"]) simp
  next
    case 10 then show ?thesis by (intro exI [of _ 9] exI [of _ "doy - 274"]) simp
  next
    case 11 then show ?thesis by (intro exI [of _ 10] exI [of _ "doy - 305"]) simp
  next
    case 12 then show ?thesis using assms by (intro exI [of _ 11] exI [of _ "doy - 336"]) simp
  qed
qed

lemma era_form:
  assumes "0 \<le> m" "m \<le> 11"
  shows "days_of_civil y m d + 719468
     = 146097 * (marchYear y m div 400) + eraDays (marchYear y m mod 400)
       + ((153 * marchMonth m + 2) div 5 + d - 1)"
  using twelve [OF assms] march_first [of y] march_first [of "y - 1"] year_length [of "y - 1"]
  by (elim disjE)
    (simp_all add: days_of_civil_def daysBeforeMonth_def marchYear_def marchMonth_def
      split: if_splits)


lemma calendar_covers: "\<exists>y m d. validDate y m d \<and> days_of_civil y m d = z"
proof -
  define era where "era = (z + 719468) div 146097"
  define doe where "doe = (z + 719468) mod 146097"
  have zz: "z + 719468 = 146097 * era + doe"
    by (simp add: era_def doe_def)
  have "0 \<le> doe" "doe < 146097"
    by (simp_all add: doe_def)
  then obtain yoe where yoe: "0 \<le> yoe" "yoe \<le> 399" "eraDays yoe \<le> doe"
    "doe < eraDays yoe + marchYearLength yoe"
    using year_cover by blast
  define doy where "doy = doe - eraDays yoe"
  have len: "marchYearLength yoe \<le> 366"
    by (simp add: marchYearLength_def)
  have doy: "0 \<le> doy" "doy < marchYearLength yoe" "doy \<le> 365"
    using yoe len by (simp_all add: doy_def)
  obtain mp d where mp: "0 \<le> mp" "mp \<le> 11" and d: "1 \<le> d"
    "d \<le> [31, 30, 31, 30, 31, 31, 30, 31, 30, 31, 31, 29] ! nat mp"
    and dd: "doy = (153 * mp + 2) div 5 + d - 1"
    using month_cover [OF doy(1,3)] by blast
  define y' where "y' = 400 * era + yoe"
  have y'd: "y' div 400 = era" and y'm: "y' mod 400 = yoe"
    using yoe(1,2) by (simp_all add: y'_def)
  define m where "m = (if mp < 10 then mp + 2 else mp - 10)"
  define y where "y = (if mp < 10 then y' else y' + 1)"
  have m: "0 \<le> m" "m \<le> 11"
    using mp by (simp_all add: m_def)
  have my: "marchYear y m = y'" and mm: "marchMonth m = mp"
    using mp by (simp_all add: marchYear_def marchMonth_def m_def y_def)
  have "days_of_civil y m d + 719468 = 146097 * era + eraDays yoe + doy"
    using era_form [OF m, of y d] by (simp add: my mm y'd y'm dd)
  then have days: "days_of_civil y m d = z"
    using zz by (simp add: doy_def)
  have "d \<le> daysInMonth y m"
  proof (cases "mp = 11")
    case True
    then have "d = doy - 336"
      using dd by simp
    moreover have "marchYearLength yoe = (if leapYear y then 366 else 365)"
      using marchYearLength_leap [of y'] True by (simp add: y'm y_def)
    ultimately show ?thesis
      using doy(2) True by (simp add: daysInMonth_def m_def split: if_splits)
  next
    case False
    then have "mp = 0 \<or> mp = 1 \<or> mp = 2 \<or> mp = 3 \<or> mp = 4 \<or> mp = 5 \<or> mp = 6 \<or> mp = 7
        \<or> mp = 8 \<or> mp = 9 \<or> mp = 10"
      using mp by arith
    then show ?thesis
      using d(2) by (elim disjE) (simp_all add: daysInMonth_def m_def)
  qed
  then have "validDate y m d"
    using m d(1) by (simp add: validDate_def)
  then show ?thesis
    using days by blast
qed

lemma civil_of_days_on_calendar:
  "validDate (fst (civil_of_days z)) (fst (snd (civil_of_days z))) (snd (snd (civil_of_days z)))
   \<and> days_of_civil (fst (civil_of_days z)) (fst (snd (civil_of_days z)))
        (snd (snd (civil_of_days z))) = z"
proof -
  obtain y m d where v: "validDate y m d" and z: "days_of_civil y m d = z"
    using calendar_covers by blast
  have "civil_of_days z = (y, m, d)"
    using civil_of_days_roundtrip [OF v] by (simp add: z)
  then show ?thesis
    using v z by simp
qed

lemma fields_onDate:
  assumes "0 \<le> dayjs_y a" "dayjs_y a \<le> 9999"
  shows "onDate a (dayjs_y a) (dayjs_M a) (dayjs_D a)"
  using assms civil_of_days_on_calendar [of "calendarDay a"]
  by (simp add: onDate_def dayjs_y_def dayjs_M_def dayjs_D_def)

text \<open>The model's formatting against the pattern as the specification words it.\<close>

lemma digits2: "10 \<le> n \<Longrightarrow> n < 100 \<Longrightarrow>
    digits n = [''0123456789'' ! (n div 10), ''0123456789'' ! (n mod 10)]"
  by (subst digits.simps) (simp add: digits_small)

lemma digits3: "100 \<le> n \<Longrightarrow> n < 1000 \<Longrightarrow>
    digits n = [''0123456789'' ! (n div 100), ''0123456789'' ! (n div 10 mod 10),
                ''0123456789'' ! (n mod 10)]"
  by (subst digits.simps) (simp add: digits2 div_mult2_eq [symmetric] less_mult_imp_div_less)

lemma digits4: "1000 \<le> n \<Longrightarrow> n < 10000 \<Longrightarrow>
    digits n = [''0123456789'' ! (n div 1000), ''0123456789'' ! (n div 100 mod 10),
                ''0123456789'' ! (n div 10 mod 10), ''0123456789'' ! (n mod 10)]"
  by (subst digits.simps) (simp add: digits3 div_mult2_eq [symmetric] less_mult_imp_div_less)

lemma replicate_23: "replicate 3 c = [c, c, c]" "replicate 2 c = [c, c]"
  by (simp_all add: numeral_3_eq_3 numeral_2_eq_2)

lemma year4:
  assumes "0 \<le> y" "y \<le> 9999"
  shows "padStart (String_int y) 4 (CHR ''0'') =
         [digit (y div 1000), digit (y div 100 mod 10), digit (y div 10 mod 10), digit (y mod 10)]"
proof -
  define n where "n = nat y"
  have n: "y = int n" "n < 10000"
    using assms by (simp_all add: n_def)
  consider "n < 10" | "10 \<le> n" "n < 100" | "100 \<le> n" "n < 1000" | "1000 \<le> n"
    by linarith
  then show ?thesis
  proof cases
    case 1
    then show ?thesis
      by (simp add: n padStart_def String_int_def digits_small digit_def nat_div_distrib
          nat_mod_distrib replicate_23)
  next
    case 2
    then show ?thesis
      by (simp add: n padStart_def String_int_def digits2 digit_def nat_div_distrib
          nat_mod_distrib replicate_23)
  next
    case 3
    then show ?thesis
      by (simp add: n padStart_def String_int_def digits3 digit_def nat_div_distrib
          nat_mod_distrib replicate_23)
  next
    case 4
    then show ?thesis
      using n(2)
      by (simp add: n padStart_def String_int_def digits4 digit_def nat_div_distrib
          nat_mod_distrib replicate_23)
  qed
qed

lemma day2:
  assumes "1 \<le> d" "d \<le> 31"
  shows "String_int d = (if d < 10 then [digit d] else [digit (d div 10), digit (d mod 10)])"
proof -
  define n where "n = nat d"
  have n: "d = int n" "1 \<le> n" "n \<le> 31"
    using assms by (simp_all add: n_def)
  show ?thesis
  proof (cases "n < 10")
    case True
    then show ?thesis
      by (simp add: n String_int_def digits_small digit_def)
  next
    case False
    then have "10 \<le> n" "n < 100"
      using n(3) by simp_all
    then show ?thesis
      using digits2 [of n]
      by (simp add: n String_int_def digit_def nat_div_distrib nat_mod_distrib)
  qed
qed

lemma month3:
  assumes "0 \<le> m" "m \<le> 11"
  shows "take 3 (months ! nat m) = monthsShort ! nat m"
  using twelve [OF assms] by (auto simp add: months_def monthsShort_def)

lemma daysInMonth_le: "0 \<le> m \<Longrightarrow> m \<le> 11 \<Longrightarrow> daysInMonth y m \<le> 31"
  using twelve [of m] by (auto simp add: daysInMonth_def)

text \<open>
  On every date of the calendar with a year of at most four digits, whatever the time
  of day, the model of \<^verbatim>\<open>format('D MMM YYYY')\<close> prints the pattern.
\<close>

lemma format_onDate:
  assumes "onDate a y m d"
  shows "format_D_MMM_YYYY a = spec_D_MMM_YYYY y m d"
proof -
  have v: "validDate y m d" and y: "0 \<le> y" "y \<le> 9999"
    and c: "calendarDay a = days_of_civil y m d"
    using assms by (simp_all add: onDate_def)
  have f: "civil_of_days (calendarDay a) = (y, m, d)"
    unfolding c using v by (rule civil_of_days_roundtrip)
  have m: "0 \<le> m" "m \<le> 11" and d: "1 \<le> d" "d \<le> 31"
    using v daysInMonth_le [of m y] by (simp_all add: validDate_def)
  show ?thesis
    unfolding format_D_MMM_YYYY_def spec_D_MMM_YYYY_def dayjs_D_def dayjs_M_def dayjs_y_def f
    by (simp only: fst_conv snd_conv year4 [OF y] day2 [OF d] month3 [OF m])
qed

lemmas format_defs = format_D_MMM_YYYY_def dayjs_D_def dayjs_M_def dayjs_y_def calendarDay_def
  msPerDay_def civil_of_days_def civil_era_def civil_year_def civil_month_def months_def
  padStart_def String_int_def digits_small digits_large

text \<open>The model on dates outside the years of four digits.\<close>

lemma format_D_MMM_YYYY_examples:
  "format_D_MMM_YYYY (Dayjs 253402300800000) = ''1 Jan 10000''"
  "format_D_MMM_YYYY (Dayjs (- 62167219200001)) = ''31 Dec 00-1''"
  by (simp_all add: format_defs replicate_23)

section \<open>The click handler and the clear action\<close>

text \<open>
  Claim C9. A click that carries no date changes nothing: the handler makes no call to
  the caller's update callback and returns the component state as it was, and the widget
  as a whole (selection, turn flag, displayed picker position) is the same afterwards.
\<close>

theorem handleChange_null_noop:
  "handleChange v st None = ([], st) \<and> step w (Click None) = w"
  by (simp add: handleChange_def step_def echo_def syncPickerValue_def)

text \<open>
  Claim C5. From any prior state the clear action reports the pair (none, none) to the
  caller's update callback, exactly once, and leaves the turn flag at "start" and the
  displayed picker position at none; with the report echoed back, the widget is in the
  empty selection with turn "start" and no displayed position.
\<close>

theorem handleClear_resets:
  "handleClear st = ([[None, None]], \<lparr>startTurn = True, pickerValue = None\<rparr>)
   \<and> step w Clear =
       \<lparr>selection = [None, None], ui = \<lparr>startTurn = True, pickerValue = None\<rparr>\<rparr>"
  by (simp add: handleClear_def step_def echo_def syncPickerValue_def startDay_of_def
      endDay_of_def Let_def)

text \<open>
  Claim C2. When the turn flag is "start", a click on a date \<open>d\<close> makes exactly one call
  to the update callback. The pair it carries is (d, none) if an end date is present and
  \<open>d\<close> is strictly after it, and (d, end) otherwise, where the end may be none. In both
  cases the turn flag becomes "end".
\<close>

theorem handleChange_start_turn:
  assumes "startTurn st"
  shows "handleChange v st (Some d) =
           ([if (case endDay_of v of None \<Rightarrow> False | Some e \<Rightarrow> valueOf e < valueOf d)
             then [Some d, None] else [Some d, endDay_of v]],
            \<lparr>startTurn = False, pickerValue = Some d\<rparr>)"
  using assms by (cases "endDay_of v") (simp_all add: handleChange_def isAfter_def Let_def)

theorem handleChange_start_turn_witness:
  "handleChange [None, Some (Dayjs 1704412800000)] \<lparr>startTurn = True, pickerValue = None\<rparr>
       (Some (Dayjs 1704844800000))
     = ([[Some (Dayjs 1704844800000), None]],
        \<lparr>startTurn = False, pickerValue = Some (Dayjs 1704844800000)\<rparr>)
   \<and> handleChange [None, Some (Dayjs 1704844800000)] \<lparr>startTurn = True, pickerValue = None\<rparr>
       (Some (Dayjs 1704412800000))
     = ([[Some (Dayjs 1704412800000), Some (Dayjs 1704844800000)]],
        \<lparr>startTurn = False, pickerValue = Some (Dayjs 1704412800000)\<rparr>)"
  using handleChange_start_turn [of "\<lparr>startTurn = True, pickerValue = None\<rparr>"
      "[None, Some (Dayjs 1704412800000)]" "Dayjs 1704844800000"]
    handleChange_start_turn [of "\<lparr>startTurn = True, pickerValue = None\<rparr>"
      "[None, Some (Dayjs 1704844800000)]" "Dayjs 1704412800000"]
  by (simp add: endDay_of_def)

text \<open>
  Claim C1. When the turn flag is "end" and a start date \<open>s\<close> is present, a click on a
  date \<open>d\<close> strictly before \<open>s\<close> reports the pair (d, s), and the turn flag stays "end".
  In particular, from the empty selection with turn "start", a click on \<open>a\<close> followed by
  a click on an earlier \<open>b\<close> ends in the selection (b, a) with the turn still "end".
\<close>

theorem handleChange_end_turn_reverse:
  "(\<not> startTurn st \<and> startDay_of v = Some s \<and> valueOf d < valueOf s \<longrightarrow>
      handleChange v st (Some d) =
        ([[Some d, Some s]], \<lparr>startTurn = False, pickerValue = Some d\<rparr>))
   \<and> (valueOf b < valueOf a \<longrightarrow>
      foldl step \<lparr>selection = [None, None], ui = \<lparr>startTurn = True, pickerValue = p\<rparr>\<rparr>
        [Click (Some a), Click (Some b)]
      = \<lparr>selection = [Some b, Some a], ui = \<lparr>startTurn = False, pickerValue = Some a\<rparr>\<rparr>)"
  by (auto simp add: picker_defs)

theorem handleChange_end_turn_reverse_witness:
  "handleChange [Some (Dayjs 1704844800000), None] \<lparr>startTurn = False, pickerValue = None\<rparr>
       (Some (Dayjs 1704412800000))
     = ([[Some (Dayjs 1704412800000), Some (Dayjs 1704844800000)]],
        \<lparr>startTurn = False, pickerValue = Some (Dayjs 1704412800000)\<rparr>)
   \<and> foldl step \<lparr>selection = [None, None], ui = \<lparr>startTurn = True, pickerValue = None\<rparr>\<rparr>
        [Click (Some (Dayjs 1704844800000)), Click (Some (Dayjs 1704412800000))]
     = \<lparr>selection = [Some (Dayjs 1704412800000), Some (Dayjs 1704844800000)],
        ui = \<lparr>startTurn = False, pickerValue = Some (Dayjs 1704844800000)\<rparr>\<rparr>"
  using handleChange_end_turn_reverse [of "\<lparr>startTurn = False, pickerValue = None\<rparr>"
      "[Some (Dayjs 1704844800000), None]" "Dayjs 1704844800000" "Dayjs 1704412800000"
      "Dayjs 1704412800000" "Dayjs 1704844800000" None]
  by (simp add: startDay_of_def)

text \<open>
  Claim C4. From the empty selection with turn "start", a click on \<open>a\<close> followed by a
  click on \<open>b\<close>, where \<open>a\<close> is not after \<open>b\<close> (the two may be equal), ends in the
  selection (a, b) with the turn flag back at "start".
\<close>

theorem two_clicks_in_order:
  assumes "valueOf a \<le> valueOf b"
  shows "foldl step \<lparr>selection = [None, None], ui = \<lparr>startTurn = True, pickerValue = p\<rparr>\<rparr>
           [Click (Some a), Click (Some b)]
         = \<lparr>selection = [Some a, Some b], ui = \<lparr>startTurn = True, pickerValue = Some a\<rparr>\<rparr>"
  using assms by (auto simp add: picker_defs)

theorem two_clicks_in_order_witness:
  "foldl step \<lparr>selection = [None, None], ui = \<lparr>startTurn = True, pickerValue = None\<rparr>\<rparr>
       [Click (Some (Dayjs 1704412800000)), Click (Some (Dayjs 1704844800000))]
     = \<lparr>selection = [Some (Dayjs 1704412800000), Some (Dayjs 1704844800000)],
        ui = \<lparr>startTurn = True, pickerValue = Some (Dayjs 1704412800000)\<rparr>\<rparr>
   \<and> foldl step \<lparr>selection = [None, None], ui = \<lparr>startTurn = True, pickerValue = None\<rparr>\<rparr>
       [Click (Some (Dayjs 1704412800000)), Click (Some (Dayjs 1704412800000))]
     = \<lparr>selection = [Some (Dayjs 1704412800000), Some (Dayjs 1704412800000)],
        ui = \<lparr>startTurn = True, pickerValue = Some (Dayjs 1704412800000)\<rparr>\<rparr>"
  using two_clicks_in_order [of "Dayjs 1704412800000" "Dayjs 1704844800000" None]
    two_clicks_in_order [of "Dayjs 1704412800000" "Dayjs 1704412800000" None]
  by simp

section \<open>The order of a reachable selection\<close>

lemma step_ordered: "ordered (selection w) \<Longrightarrow> ordered (selection (step w ev))"
  by (cases ev) (auto simp add: ordered_def picker_defs split: option.splits)

lemma run_ordered: "ordered (selection (run evs))"
  unfolding run_def
proof (induction evs rule: rev_induct)
  case Nil
  show ?case by (simp add: initial_def ordered_def startDay_of_def)
next
  case (snoc ev evs)
  then show ?case by (simp add: step_ordered)
qed

text \<open>
  Claim C3. Start from the empty selection with turn "start" and apply any sequence of
  clicks (with or without a date) and clear actions, every reported pair being passed
  back as the current selection. Whenever the selection reached has both a start and an
  end, the start is not after the end, as instants and therefore as calendar days.
\<close>

theorem reachable_selection_ordered:
  assumes "startDay_of (selection (run evs)) = Some s"
    and "endDay_of (selection (run evs)) = Some e"
  shows "valueOf s \<le> valueOf e \<and> calendarDay s \<le> calendarDay e"
proof -
  have "valueOf s \<le> valueOf e"
    using run_ordered [of evs] assms by (simp add: ordered_def)
  then show ?thesis
    by (simp add: calendarDay_mono)
qed

theorem reachable_selection_ordered_witness:
  "startDay_of (selection (run [Click (Some (Dayjs 1704844800000)),
       Click (Some (Dayjs 1704412800000))])) = Some (Dayjs 1704412800000)
   \<and> endDay_of (selection (run [Click (Some (Dayjs 1704844800000)),
       Click (Some (Dayjs 1704412800000))])) = Some (Dayjs 1704844800000)
   \<and> valueOf (Dayjs 1704412800000) \<le> valueOf (Dayjs 1704844800000)
   \<and> calendarDay (Dayjs 1704412800000) \<le> calendarDay (Dayjs 1704844800000)"
proof -
  have r: "run [Click (Some (Dayjs 1704844800000)), Click (Some (Dayjs 1704412800000))]
      = \<lparr>selection = [Some (Dayjs 1704412800000), Some (Dayjs 1704844800000)],
         ui = \<lparr>startTurn = False, pickerValue = Some (Dayjs 1704844800000)\<rparr>\<rparr>"
    by (simp add: run_def initial_def picker_defs)
  have s: "startDay_of (selection (run [Click (Some (Dayjs 1704844800000)),
      Click (Some (Dayjs 1704412800000))])) = Some (Dayjs 1704412800000)"
    by (simp add: r startDay_of_def)
  have e: "endDay_of (selection (run [Click (Some (Dayjs 1704844800000)),
      Click (Some (Dayjs 1704412800000))])) = Some (Dayjs 1704844800000)"
    by (simp add: r endDay_of_def)
  show ?thesis
    using s e reachable_selection_ordered [OF s e] by simp
qed

section \<open>Styling of the calendar cells\<close>

text \<open>
  What the code computes: the in-range background is decided by comparing instants. A
  cell is shaded exactly when its instant lies between the earlier and the later of the
  two endpoint instants, both included; an endpoint that is alone is both bounds.
\<close>

lemma Day_in_range:
  "(inRangeStyled (Day d (Some s) (Some e)) \<longleftrightarrow>
      min (valueOf s) (valueOf e) \<le> valueOf d \<and> valueOf d \<le> max (valueOf s) (valueOf e))
   \<and> (inRangeStyled (Day d (Some s) None) \<longleftrightarrow>
      valueOf s \<le> valueOf d \<and> valueOf d \<le> valueOf s)
   \<and> (inRangeStyled (Day d None (Some e)) \<longleftrightarrow>
      valueOf e \<le> valueOf d \<and> valueOf d \<le> valueOf e)"
  by (simp add: inRangeStyled_def Day_between_def Let_def isBetween_iff)

text \<open>
  For dates that carry no time of day (midnight instants), lying between two instants
  is lying between two calendar days, and the range of shaded cells is the range of
  calendar days between the bounds.
\<close>

lemma Day_in_range_midnight:
  assumes "valueOf d mod msPerDay = 0" "valueOf s mod msPerDay = 0" "valueOf e mod msPerDay = 0"
  shows "inRangeStyled (Day d (Some s) (Some e)) \<longleftrightarrow>
           min (calendarDay s) (calendarDay e) \<le> calendarDay d
         \<and> calendarDay d \<le> max (calendarDay s) (calendarDay e)"
proof -
  have v: "valueOf x = msPerDay * calendarDay x" if "valueOf x mod msPerDay = 0" for x
    using that mult_div_mod_eq [of msPerDay "valueOf x"] by (simp add: calendarDay_def)
  have m: "msPerDay * x \<le> msPerDay * y \<longleftrightarrow> x \<le> y" for x y :: int
    by (simp add: msPerDay_def)
  show ?thesis
    by (simp add: inRangeStyled_def Day_between_def Let_def isBetween_iff v [OF assms(1)]
        v [OF assms(2)] v [OF assms(3)] min_def max_def m)
qed

lemma startOf_day_facts:
  "calendarDay (startOf_day s) = calendarDay s"
  "valueOf s mod msPerDay \<noteq> 0 \<Longrightarrow> valueOf (startOf_day s) < valueOf s"
proof -
  have "isSame_day s (startOf_day s)"
    by (simp add: isSame_day_def endOf_day_def startOf_day_def msPerDay_def)
  then show "calendarDay (startOf_day s) = calendarDay s"
    by (simp add: isSame_day_iff)
  have "0 \<le> valueOf s mod msPerDay"
    by (simp add: msPerDay_def)
  then show "valueOf s mod msPerDay \<noteq> 0 \<Longrightarrow> valueOf (startOf_day s) < valueOf s"
    by (simp add: startOf_day_def)
qed

text \<open>
  Claim C6. The claim is that a cell is styled as in range exactly when its calendar day
  lies within the earlier and the later bound, both included. The code does not do this
  for a bound that carries a time of day. Take any selection whose start \<open>s\<close> is not at
  midnight, with the end not before it or with no end. The cell of the start's own
  calendar day (the calendar draws it at midnight) is the earlier bound of the range and
  is marked as the first day, since that mark compares calendar days; but it gets no
  in-range background, since that test compares instants and midnight is before \<open>s\<close>.
\<close>

theorem Day_start_cell_not_in_range:
  assumes "valueOf s mod msPerDay \<noteq> 0" and "valueOf s \<le> valueOf e"
  shows "calendarDay (startOf_day s) = min (calendarDay s) (calendarDay e)
       \<and> markedFirst (Day (startOf_day s) (Some s) (Some e))
       \<and> \<not> inRangeStyled (Day (startOf_day s) (Some s) (Some e))
       \<and> markedFirst (Day (startOf_day s) (Some s) None)
       \<and> \<not> inRangeStyled (Day (startOf_day s) (Some s) None)"
proof -
  have lt: "valueOf (startOf_day s) < valueOf s"
    using assms(1) by (rule startOf_day_facts(2))
  have "calendarDay s \<le> calendarDay e"
    using assms(2) by (rule calendarDay_mono)
  then have "calendarDay (startOf_day s) = min (calendarDay s) (calendarDay e)"
    by (simp add: startOf_day_facts(1))
  moreover have "markedFirst (Day (startOf_day s) (Some s) (Some e))"
    "markedFirst (Day (startOf_day s) (Some s) None)"
    by (simp_all add: markedFirst_def Day_between_def Let_def isSame_day_iff startOf_day_facts(1))
  moreover have "\<not> inRangeStyled (Day (startOf_day s) (Some s) (Some e))"
    "\<not> inRangeStyled (Day (startOf_day s) (Some s) None)"
    using lt assms(2)
    by (simp_all add: inRangeStyled_def Day_between_def Let_def isBetween_iff)
  ultimately show ?thesis by simp
qed

text \<open>
  The failing input: start 5 Jan 2024 10:00, end 10 Jan 2024 10:00 (or no end), and the
  cell of 5 Jan 2024. The cell of 10 Jan 2024, the later bound, is shaded.
\<close>

theorem Day_start_cell_not_in_range_witness:
  "startOf_day (Dayjs 1704448800000) = Dayjs 1704412800000
   \<and> calendarDay (Dayjs 1704412800000)
       = min (calendarDay (Dayjs 1704448800000)) (calendarDay (Dayjs 1704880800000))
   \<and> markedFirst (Day (Dayjs 1704412800000)
       (Some (Dayjs 1704448800000)) (Some (Dayjs 1704880800000)))
   \<and> \<not> inRangeStyled (Day (Dayjs 1704412800000)
       (Some (Dayjs 1704448800000)) (Some (Dayjs 1704880800000)))
   \<and> markedFirst (Day (Dayjs 1704412800000) (Some (Dayjs 1704448800000)) None)
   \<and> \<not> inRangeStyled (Day (Dayjs 1704412800000) (Some (Dayjs 1704448800000)) None)
   \<and> inRangeStyled (Day (Dayjs 1704844800000)
       (Some (Dayjs 1704448800000)) (Some (Dayjs 1704880800000)))"
proof -
  have h1: "valueOf (Dayjs 1704448800000) mod msPerDay \<noteq> 0"
    by (simp add: msPerDay_def)
  have h2: "valueOf (Dayjs 1704448800000) \<le> valueOf (Dayjs 1704880800000)"
    by simp
  have st: "startOf_day (Dayjs 1704448800000) = Dayjs 1704412800000"
    by (simp add: startOf_day_def msPerDay_def)
  have last: "inRangeStyled (Day (Dayjs 1704844800000)
       (Some (Dayjs 1704448800000)) (Some (Dayjs 1704880800000)))"
    by (simp add: inRangeStyled_def Day_between_def Let_def isBetween_iff)
  show ?thesis
    using Day_start_cell_not_in_range [OF h1 h2] last by (simp add: st)
qed

text \<open>
  Claim C7, as stated: a cell is marked first exactly when its day is the earlier of the
  two bounds, and last exactly when it is the later one, for every selection. This fails
  for a selection whose start is after its end, which a caller can pass in: with start
  10 Jan 2024 and end 5 Jan 2024 the cell of 5 Jan, the earlier bound, is not marked
  first but last.
\<close>

theorem Day_first_last_counterexample:
  "\<not> markedFirst (Day (Dayjs 1704412800000)
         (Some (Dayjs 1704844800000)) (Some (Dayjs 1704412800000)))
   \<and> markedLast (Day (Dayjs 1704412800000)
         (Some (Dayjs 1704844800000)) (Some (Dayjs 1704412800000)))
   \<and> calendarDay (Dayjs 1704412800000)
         = min (calendarDay (Dayjs 1704844800000)) (calendarDay (Dayjs 1704412800000))
   \<and> calendarDay (Dayjs 1704412800000)
         \<noteq> max (calendarDay (Dayjs 1704844800000)) (calendarDay (Dayjs 1704412800000))"
  by (simp add: markedFirst_def markedLast_def Day_between_def Let_def isSame_day_iff
      calendarDay_def msPerDay_def)

text \<open>
  Claim C7, amended. Take a selection with at least one endpoint set in which, when both
  are set, the calendar day of the start is not after that of the end. A cell is marked
  first exactly when it is the calendar day of the earlier bound, and last exactly when
  it is the calendar day of the later bound; an endpoint that is alone is both bounds.
  For any selection, a cell gets the endpoint highlight (white text on the primary main
  colour) exactly when it is marked first or last.
\<close>

theorem Day_first_last:
  assumes "calendarDay s \<le> calendarDay e"
  shows "(markedFirst (Day d (Some s) (Some e)) \<longleftrightarrow>
            calendarDay d = min (calendarDay s) (calendarDay e))
       \<and> (markedLast (Day d (Some s) (Some e)) \<longleftrightarrow>
            calendarDay d = max (calendarDay s) (calendarDay e))
       \<and> (markedFirst (Day d (Some s) None) \<longleftrightarrow> calendarDay d = calendarDay s)
       \<and> (markedLast (Day d (Some s) None) \<longleftrightarrow> calendarDay d = calendarDay s)
       \<and> (markedFirst (Day d None (Some e)) \<longleftrightarrow> calendarDay d = calendarDay e)
       \<and> (markedLast (Day d None (Some e)) \<longleftrightarrow> calendarDay d = calendarDay e)
       \<and> endpointHighlight theme (Day d startDay endDay) =
            (if markedFirst (Day d startDay endDay) \<or> markedLast (Day d startDay endDay)
             then Some \<lparr>color = common_white theme, backgroundColor = primary_main theme\<rparr>
             else None)"
proof -
  have hl: "endpointHighlight theme (Day d startDay endDay) =
      (if markedFirst (Day d startDay endDay) \<or> markedLast (Day d startDay endDay)
       then Some \<lparr>color = common_white theme, backgroundColor = primary_main theme\<rparr>
       else None)"
    by (cases startDay; cases endDay)
      (simp_all add: markedFirst_def markedLast_def endpointHighlight_def
        CustomPickersDay_def Day_between_def Let_def)
  show ?thesis
    using assms hl
    by (simp add: markedFirst_def markedLast_def Day_between_def Let_def isSame_day_iff
        min_def max_def)
qed

theorem Day_first_last_witness:
  "calendarDay (Dayjs 1704412800000) \<le> calendarDay (Dayjs 1704844800000)
   \<and> markedFirst (Day (Dayjs 1704412800000)
        (Some (Dayjs 1704412800000)) (Some (Dayjs 1704844800000)))
   \<and> \<not> markedLast (Day (Dayjs 1704412800000)
        (Some (Dayjs 1704412800000)) (Some (Dayjs 1704844800000)))
   \<and> endpointHighlight
        \<lparr>common_white = ''#fff'', primary_main = ''#1976d2'', primary_dark = ''#1565c0''\<rparr>
        (Day (Dayjs 1704412800000) (Some (Dayjs 1704412800000)) (Some (Dayjs 1704844800000)))
      = Some \<lparr>color = ''#fff'', backgroundColor = ''#1976d2''\<rparr>"
proof -
  have h: "calendarDay (Dayjs 1704412800000) \<le> calendarDay (Dayjs 1704844800000)"
    by (simp add: calendarDay_def msPerDay_def)
  have c: "calendarDay (Dayjs 1704412800000) = 19727"
    "calendarDay (Dayjs 1704844800000) = 19732"
    by (simp_all add: calendarDay_def msPerDay_def)
  show ?thesis
    using h Day_first_last [OF h, of "Dayjs 1704412800000"
        "\<lparr>common_white = ''#fff'', primary_main = ''#1976d2'', primary_dark = ''#1565c0''\<rparr>"
        "Some (Dayjs 1704412800000)" "Some (Dayjs 1704844800000)"]
    by (simp add: c)
qed

text \<open>
  Claim C10. The corners at the week boundaries are tied to Sunday (day of the week 0,
  left corners) and Saturday (day of the week 6, right corners). With at least one
  endpoint set, every Sunday cell gets rounded left corners and every Saturday cell gets
  rounded right corners. Whether a cell is rounded depends only on its being marked
  first or last and on its day of the week, not on its being in range.
\<close>

theorem week_boundary_rounding:
  assumes "\<not> (startDay = None \<and> endDay = None)"
  shows "(dayjs_day d = 0 \<longrightarrow> roundedLeft (Day d startDay endDay))
       \<and> (dayjs_day d = 6 \<longrightarrow> roundedRight (Day d startDay endDay))
       \<and> (roundedLeft (Day d startDay endDay) \<longleftrightarrow>
            markedFirst (Day d startDay endDay) \<or> dayjs_day d = 0)
       \<and> (roundedRight (Day d startDay endDay) \<longleftrightarrow>
            markedLast (Day d startDay endDay) \<or> dayjs_day d = 6)"
  using assms
  by (cases startDay; cases endDay)
    (simp_all add: roundedLeft_def roundedRight_def markedFirst_def markedLast_def
      Day_between_def Let_def)

text \<open>
  A Sunday and a Saturday outside the range 5 Jan 2024 to 10 Jan 2024: 14 Jan 2024 is
  rounded on the left and 13 Jan 2024 on the right, and neither is in range.
\<close>

theorem week_boundary_rounding_witness:
  "dayjs_day (Dayjs 1705190400000) = 0
   \<and> roundedLeft (Day (Dayjs 1705190400000)
        (Some (Dayjs 1704412800000)) (Some (Dayjs 1704844800000)))
   \<and> \<not> inRangeStyled (Day (Dayjs 1705190400000)
        (Some (Dayjs 1704412800000)) (Some (Dayjs 1704844800000)))
   \<and> dayjs_day (Dayjs 1705104000000) = 6
   \<and> roundedRight (Day (Dayjs 1705104000000)
        (Some (Dayjs 1704412800000)) (Some (Dayjs 1704844800000)))
   \<and> \<not> inRangeStyled (Day (Dayjs 1705104000000)
        (Some (Dayjs 1704412800000)) (Some (Dayjs 1704844800000)))"
proof -
  have h: "\<not> (Some (Dayjs 1704412800000) = None \<and> Some (Dayjs 1704844800000) = None)"
    by simp
  have sun: "dayjs_day (Dayjs 1705190400000) = 0"
    and sat: "dayjs_day (Dayjs 1705104000000) = 6"
    by (simp_all add: dayjs_day_def calendarDay_def msPerDay_def)
  have out: "\<not> inRangeStyled (Day (Dayjs 1705190400000)
        (Some (Dayjs 1704412800000)) (Some (Dayjs 1704844800000)))"
    "\<not> inRangeStyled (Day (Dayjs 1705104000000)
        (Some (Dayjs 1704412800000)) (Some (Dayjs 1704844800000)))"
    by (simp_all add: inRangeStyled_def Day_between_def Let_def isBetween_iff)
  show ?thesis
    using sun sat out
      week_boundary_rounding [OF h, of "Dayjs 1705190400000"]
      week_boundary_rounding [OF h, of "Dayjs 1705104000000"]
    by simp
qed

section \<open>The text of the field\<close>

text \<open>
  Claim C8. The text of the field is the start date in the pattern \<^verbatim>\<open>D MMM YYYY\<close>, or
  the word \<^verbatim>\<open>Start\<close> when there is no start, then \<^verbatim>\<open> - \<close>, then the end date in the
  same pattern, or the word \<^verbatim>\<open>End\<close>. The pattern is the one stated independently of the
  model (day without a leading zero, three-letter month, four-digit year), on the date
  of the independently stated calendar on which the instant lies, for every date with a
  year from 0 to 9999 and every time of day. The empty selection is shown as
  \<^verbatim>\<open>Start - End\<close>, and a start on 15 Jan 2024 with no end as \<^verbatim>\<open>15 Jan 2024 - End\<close>. For
  every pair, also with years outside that range, the text is the two parts joined by
  \<^verbatim>\<open> - \<close>; and every instant lies on a date of the calendar.
\<close>

theorem CustomTextField_value_format:
  "CustomTextField_value None None = ''Start - End''
   \<and> (onDate s y m d \<longrightarrow>
        CustomTextField_value (Some s) None = spec_D_MMM_YYYY y m d @ '' - End'')
   \<and> (onDate e y' m' d' \<longrightarrow>
        CustomTextField_value None (Some e) = ''Start - '' @ spec_D_MMM_YYYY y' m' d')
   \<and> (onDate s y m d \<and> onDate e y' m' d' \<longrightarrow>
        CustomTextField_value (Some s) (Some e)
          = spec_D_MMM_YYYY y m d @ '' - '' @ spec_D_MMM_YYYY y' m' d')
   \<and> CustomTextField_value (Some (Dayjs 1705276800000)) None = ''15 Jan 2024 - End''
   \<and> CustomTextField_value (Some (Dayjs 946598400000)) (Some (Dayjs 1709164800000))
        = ''31 Dec 1999 - 29 Feb 2024''
   \<and> CustomTextField_value None (Some (Dayjs (- 31015008000000))) = ''Start - 5 Mar 0987''
   \<and> CustomTextField_value startDay endDay =
        (case startDay of None \<Rightarrow> ''Start'' | Some a \<Rightarrow> format_D_MMM_YYYY a) @ '' - '' @
        (case endDay of None \<Rightarrow> ''End'' | Some b \<Rightarrow> format_D_MMM_YYYY b)
   \<and> (\<exists>u v w. validDate u v w \<and> calendarDay c = days_of_civil u v w)"
proof -
  have cover: "\<exists>u v w. validDate u v w \<and> calendarDay c = days_of_civil u v w"
    using calendar_covers [of "calendarDay c"] by metis
  have ex: "format_D_MMM_YYYY (Dayjs 1705276800000) = ''15 Jan 2024''"
    "format_D_MMM_YYYY (Dayjs 946598400000) = ''31 Dec 1999''"
    "format_D_MMM_YYYY (Dayjs 1709164800000) = ''29 Feb 2024''"
    "format_D_MMM_YYYY (Dayjs (- 31015008000000)) = ''5 Mar 0987''"
    by (simp_all add: format_defs)
  have parts: "CustomTextField_value startDay endDay =
        (case startDay of None \<Rightarrow> ''Start'' | Some a \<Rightarrow> format_D_MMM_YYYY a) @ '' - '' @
        (case endDay of None \<Rightarrow> ''End'' | Some b \<Rightarrow> format_D_MMM_YYYY b)"
    by (cases startDay; cases endDay) (simp_all add: CustomTextField_value_def)
  have dated: "CustomTextField_value (Some a) None = spec_D_MMM_YYYY u v w @ '' - End''"
    "CustomTextField_value None (Some a) = ''Start - '' @ spec_D_MMM_YYYY u v w"
    if "onDate a u v w" for a u v w
    using format_onDate [OF that] by (simp_all add: CustomTextField_value_def)
  have both: "CustomTextField_value (Some a) (Some b)
      = spec_D_MMM_YYYY u v w @ '' - '' @ spec_D_MMM_YYYY u' v' w'"
    if "onDate a u v w" "onDate b u' v' w'" for a b u v w u' v' w'
    using format_onDate [OF that(1)] format_onDate [OF that(2)]
    by (simp add: CustomTextField_value_def)
  have inst: "CustomTextField_value None None = ''Start - End''"
    "CustomTextField_value (Some (Dayjs 1705276800000)) None = ''15 Jan 2024 - End''"
    "CustomTextField_value (Some (Dayjs 946598400000)) (Some (Dayjs 1709164800000))
        = ''31 Dec 1999 - 29 Feb 2024''"
    "CustomTextField_value None (Some (Dayjs (- 31015008000000))) = ''Start - 5 Mar 0987''"
    by (simp_all add: CustomTextField_value_def ex)
  show ?thesis
    using parts inst dated both cover by blast
qed

text \<open>
  29 Feb 2024 at 10:00 and 31 Dec 1999 at 10:00: both lie on dates of the calendar, and
  the field shows them in the pattern.
\<close>

theorem CustomTextField_value_format_witness:
  "onDate (Dayjs 1709200800000) 2024 1 29
   \<and> onDate (Dayjs 946634400000) 1999 11 31
   \<and> CustomTextField_value (Some (Dayjs 1709200800000)) None = ''29 Feb 2024 - End''
   \<and> CustomTextField_value None (Some (Dayjs 946634400000)) = ''Start - 31 Dec 1999''
   \<and> CustomTextField_value (Some (Dayjs 1709200800000)) (Some (Dayjs 946634400000))
       = ''29 Feb 2024 - 31 Dec 1999''"
proof -
  have s: "onDate (Dayjs 1709200800000) 2024 1 29"
    by (simp add: onDate_def validDate_def daysInMonth_def leapYear_def days_of_civil_def
        dayFromYear_def daysBeforeMonth_def calendarDay_def msPerDay_def)
  have e: "onDate (Dayjs 946634400000) 1999 11 31"
    by (simp add: onDate_def validDate_def daysInMonth_def leapYear_def days_of_civil_def
        dayFromYear_def daysBeforeMonth_def calendarDay_def msPerDay_def)
  have p: "spec_D_MMM_YYYY 2024 1 29 = ''29 Feb 2024''"
    "spec_D_MMM_YYYY 1999 11 31 = ''31 Dec 1999''"
    by (simp_all add: spec_D_MMM_YYYY_def digit_def monthsShort_def)
  show ?thesis
    using s e
      CustomTextField_value_format [of "Dayjs 1709200800000" 2024 1 29
        "Dayjs 946634400000" 1999 11 31 None None]
    by (simp add: p)
qed

end
